theory Spec2Isabelle
  imports Main
begin

section \<open>The to-do list application (class TodoApp)\<close>

text \<open>
  The application keeps its task list in the page: the children of the \<open>.task-list\<close>
  element, one \<open>li.task-item\<close> per task, in document order. Each item carries
  \<open>dataset.id\<close>, the text of its \<open>span.task-content\<close> and the class \<open>completed\<close> on
  that span. The model keeps exactly this: a list of items, the value of the input field,
  the \<open>localStorage\<close> slot \<open>todoList\<close>, and the messages given to \<open>alert\<close> and to the
  console. Button labels, the empty-state banner and the visibility of the clear button are
  computed from the list and are left out.

  Strings: one \<open>char\<close> stands for one UTF-16 code unit below 256 (Latin-1), so \<open>length\<close>
  is the \<open>.length\<close> of the source for such text.
\<close>

subsection \<open>Strings of the platform: trim, toLowerCase, number to string\<close>

definition is_space :: "char \<Rightarrow> bool" where
  \<comment> \<open>WhiteSpace and LineTerminator code units below 256: TAB, LF, VT, FF, CR, SP, NBSP\<close>
  "is_space c = ((of_char c :: nat) \<in> {9, 10, 11, 12, 13, 32, 160})"

definition trim :: "string \<Rightarrow> string" where
  "trim s = rev (dropWhile is_space (rev (dropWhile is_space s)))"

definition lower_char :: "char \<Rightarrow> char" where
  \<comment> \<open>A-Z, and the Latin-1 capitals 192-214 and 216-222, move up by 32\<close>
  "lower_char c =
     (let n = (of_char c :: nat)
      in if (65 \<le> n \<and> n \<le> 90) \<or> (192 \<le> n \<and> n \<le> 214) \<or> (216 \<le> n \<and> n \<le> 222)
         then char_of (n + 32) else c)"

definition toLowerCase :: "string \<Rightarrow> string" where
  "toLowerCase s = map lower_char s"

definition digit_char :: "nat \<Rightarrow> char" where
  "digit_char d = char_of (48 + d)"

fun nat_to_string :: "nat \<Rightarrow> string" where
  "nat_to_string n =
     (if n < 10 then [digit_char n] else nat_to_string (n div 10) @ [digit_char (n mod 10)])"

declare nat_to_string.simps [simp del]

subsection \<open>Values read back by JSON.parse\<close>

text \<open>
  A parsed JSON value. A number is kept as the string that JavaScript prints for it
  (the conversion of a number to a string is one-to-one on the numbers that
  \<open>JSON.parse\<close> yields, except that 0 and -0 both print as \<open>0\<close>). An object is the
  list of its own properties, each name once. A property that an object does not have
  reads as \<open>undefined\<close>, which is \<open>None\<close> of \<open>json option\<close>.
\<close>

datatype json =
    JNull
  | JBool bool
  | JNumber string
  | JString string
  | JArray "json list"
  | JObject "(string \<times> json) list"

fun get_prop :: "string \<Rightarrow> json \<Rightarrow> json option" where
  \<comment> \<open>\<open>taskData.name\<close> for the names \<open>id\<close>, \<open>text\<close>, \<open>completed\<close>: own properties of an object\<close>
  "get_prop name (JObject kvs) = map_of kvs name"
| "get_prop name _ = None"

fun truthy :: "json \<Rightarrow> bool" where
  "truthy JNull = False"
| "truthy (JBool b) = b"
| "truthy (JNumber n) = (n \<noteq> ''0'')"
| "truthy (JString s) = (s \<noteq> [])"
| "truthy (JArray _) = True"
| "truthy (JObject _) = True"

fun typeof_object :: "json \<Rightarrow> bool" where
  \<comment> \<open>\<open>typeof v === 'object'\<close>\<close>
  "typeof_object JNull = True"
| "typeof_object (JArray _) = True"
| "typeof_object (JObject _) = True"
| "typeof_object _ = False"

fun isArray :: "json \<Rightarrow> bool" where
  "isArray (JArray _) = True"
| "isArray _ = False"

fun join_comma :: "string list \<Rightarrow> string" where
  "join_comma [] = []"
| "join_comma [s] = s"
| "join_comma (s # t # ss) = s @ CHR '','' # join_comma (t # ss)"

text \<open>
  The string conversion applied when a value is stored in \<open>dataset\<close>; \<open>None\<close> is
  the TypeError it throws. An object converts through its \<open>toString\<close> property: the
  inherited one gives \<open>[object Object]\<close>; an own property of that name is a JSON value,
  not a function, and then neither it nor \<open>valueOf\<close> yields a primitive. An array joins
  the conversions of its elements, null as the empty string, and throws when one of them
  throws.
\<close>

fun to_string :: "json \<Rightarrow> string option" where
  "to_string JNull = Some ''null''"
| "to_string (JBool b) = Some (if b then ''true'' else ''false'')"
| "to_string (JNumber n) = Some n"
| "to_string (JString s) = Some s"
| "to_string (JArray xs) =
     map_option join_comma (those (map (\<lambda>x. if x = JNull then Some [] else to_string x) xs))"
| "to_string (JObject kvs) =
     (if map_of kvs ''toString'' = None then Some ''[object Object]'' else None)"

subsection \<open>The page and the storage slot\<close>

record task_item =
  task_id :: string       \<comment> \<open>\<open>dataset.id\<close>\<close>
  task_text :: string   \<comment> \<open>\<open>textContent\<close> of the \<open>.task-content\<close> span\<close>
  completed :: bool     \<comment> \<open>the span has the class \<open>completed\<close>\<close>

text \<open>
  The slot holds a string. \<open>JSON j\<close> is a string that \<open>JSON.parse\<close> reads as \<open>j\<close>, and
  the string \<open>JSON.stringify\<close> writes for \<open>j\<close>; \<open>NotJSON s\<close> is a string \<open>s\<close> on which
  \<open>JSON.parse\<close> throws. Writing to the slot always succeeds (no storage quota).
\<close>

datatype slot = JSON json | NotJSON string

datatype js_error =
    SyntaxError      \<comment> \<open>thrown by \<open>JSON.parse\<close>\<close>
  | NotAnArray       \<comment> \<open>the Error that \<open>loadTasks\<close> throws itself\<close>
  | TypeError        \<comment> \<open>thrown by the string conversion of an id\<close>

datatype message =
    EMPTY_TASK
  | WHITESPACE_ONLY
  | TASK_TOO_LONG
  | TASK_EXISTS
  | DATA_CORRUPT js_error

datatype log_entry =
    SkippedTask json         \<comment> \<open>\<open>console.warn\<close> for one skipped element\<close>
  | LoadSummary nat nat      \<comment> \<open>\<open>console.warn\<close>: loaded and skipped counts\<close>
  | LoadFailed js_error    \<comment> \<open>\<open>console.error\<close>\<close>

record app =
  taskInput :: string               \<comment> \<open>\<open>elements.taskInput.value\<close>\<close>
  taskList :: "task_item list"      \<comment> \<open>children of \<open>elements.taskList\<close>\<close>
  storage :: "slot option"          \<comment> \<open>\<open>localStorage\<close> under \<open>STORAGE_KEY\<close>\<close>
  alerts :: "message list"          \<comment> \<open>calls of \<open>alert\<close>, oldest first\<close>
  console :: "log_entry list"       \<comment> \<open>console output, oldest first\<close>

definition MAX_TASK_LENGTH :: nat where
  "MAX_TASK_LENGTH = 200"

subsection \<open>Saving\<close>

definition task_json :: "task_item \<Rightarrow> json" where
  "task_json t =
     JObject [(''id'', JString (task_id t)), (''text'', JString (task_text t)),
              (''completed'', JBool (completed t))]"

definition saveTasks :: "app \<Rightarrow> app" where
  "saveTasks st = st\<lparr>storage := Some (JSON (JArray (map task_json (taskList st))))\<rparr>"

subsection \<open>Adding\<close>

definition insertTaskIntoList :: "task_item \<Rightarrow> bool \<Rightarrow> app \<Rightarrow> app" where
  "insertTaskIntoList taskItem c st =
     (if c then st\<lparr>taskList := taskList st @ [taskItem]\<rparr>
      else st\<lparr>taskList := taskItem # taskList st\<rparr>)"

definition dataset_id :: "json option \<Rightarrow> nat \<Rightarrow> string option" where
  \<comment> \<open>\<open>dataset.id = id || Date.now()\<close>: the stored string, or \<open>None\<close> when the conversion
      throws; \<open>now\<close> is what \<open>Date.now()\<close> returns\<close>
  "dataset_id idv now =
     (case idv of
        None \<Rightarrow> Some (nat_to_string now)
      | Some v \<Rightarrow> if truthy v then to_string v else Some (nat_to_string now))"

definition addTask :: "nat \<Rightarrow> string \<Rightarrow> bool \<Rightarrow> json option \<Rightarrow> app \<Rightarrow> js_error + app" where
  \<comment> \<open>the id is set first: when that throws, nothing has been inserted or saved\<close>
  "addTask now txt c idv st =
     (case dataset_id idv now of
        None \<Rightarrow> Inl TypeError
      | Some i \<Rightarrow>
          let taskItem = \<lparr>task_id = i, task_text = txt, completed = c\<rparr>
          in Inr (saveTasks (insertTaskIntoList taskItem c st)))"

definition handleAdd :: "nat \<Rightarrow> app \<Rightarrow> app" where
  "handleAdd now st =
     (let taskText = taskInput st in
      if taskText = [] then st\<lparr>alerts := alerts st @ [EMPTY_TASK]\<rparr>
      else if trim taskText = []
        then st\<lparr>alerts := alerts st @ [WHITESPACE_ONLY], taskInput := []\<rparr>
      else if length taskText > MAX_TASK_LENGTH
        then st\<lparr>alerts := alerts st @ [TASK_TOO_LONG]\<rparr>
      else
        let normalizedText = trim taskText in
        if list_ex (\<lambda>t. toLowerCase (task_text t) = toLowerCase normalizedText \<and> \<not> completed t)
             (taskList st)
        then st\<lparr>alerts := alerts st @ [TASK_EXISTS]\<rparr>
        else
          (case addTask now normalizedText False None st of
             Inr st' \<Rightarrow> st'\<lparr>taskInput := []\<rparr>
           | Inl err \<Rightarrow> st))"

subsection \<open>Clicks in the list: delete and toggle\<close>

text \<open>
  \<open>deleteTask\<close> and \<open>toggleComplete\<close> receive the \<open>li\<close> element itself. The click
  handler finds it with \<open>closest('.task-item')\<close> from the click target, so it is a child
  of the list, named here by its position, or there is none. A position beyond the end
  of the list names no element: removing it removes nothing, and \<open>toggleComplete\<close> is
  then not called by the handler (the model leaves the state as it is).
\<close>

definition deleteTask :: "nat \<Rightarrow> app \<Rightarrow> app" where
  "deleteTask i st = saveTasks (st\<lparr>taskList := take i (taskList st) @ drop (Suc i) (taskList st)\<rparr>)"

definition toggleComplete :: "nat \<Rightarrow> app \<Rightarrow> app" where
  "toggleComplete i st =
     (if i < length (taskList st) then
        let taskElement = taskList st ! i;
            others = take i (taskList st) @ drop (Suc i) (taskList st)
        in if completed taskElement
           then saveTasks (st\<lparr>taskList := taskElement\<lparr>completed := False\<rparr> # others\<rparr>)
           else saveTasks (st\<lparr>taskList := others @ [taskElement\<lparr>completed := True\<rparr>]\<rparr>)
      else st)"

datatype button = DeleteBtn | CompleteBtn | NoBtn

record click =
  closest :: "nat option"     \<comment> \<open>\<open>target.closest('.task-item')\<close>: position of the item, or null\<close>
  target :: button            \<comment> \<open>which button class the target has\<close>

definition taskListClick :: "click \<Rightarrow> app \<Rightarrow> app" where
  "taskListClick e st =
     (case closest e of
        None \<Rightarrow> st
      | Some taskItem \<Rightarrow>
          if target e = DeleteBtn then deleteTask taskItem st
          else if target e = CompleteBtn then toggleComplete taskItem st
          else st)"

subsection \<open>Clearing the completed tasks\<close>

definition clearCompletedTasks :: "app \<Rightarrow> json option \<times> app" where
  \<comment> \<open>the method has no \<open>return\<close>: its value is \<open>undefined\<close>\<close>
  "clearCompletedTasks st =
     (None, saveTasks (st\<lparr>taskList := filter (\<lambda>t. \<not> completed t) (taskList st)\<rparr>))"

subsection \<open>Loading\<close>

definition isValidTaskData :: "json \<Rightarrow> bool" where
  "isValidTaskData taskData =
     (truthy taskData \<and>
      typeof_object taskData \<and>
      (case get_prop ''text'' taskData of Some (JString s) \<Rightarrow> length (trim s) > 0 | _ \<Rightarrow> False) \<and>
      (case get_prop ''completed'' taskData of Some (JBool b) \<Rightarrow> True | _ \<Rightarrow> False))"

fun the_string :: "json option \<Rightarrow> string" where
  "the_string (Some (JString s)) = s"
| "the_string _ = []"

fun the_bool :: "json option \<Rightarrow> bool" where
  "the_bool (Some (JBool b)) = b"
| "the_bool _ = False"

text \<open>
  The loop \<open>for (i = tasks.length - 1; i >= 0; i--)\<close>: \<open>load_loop clock tasks n s\<close> runs the
  iterations \<open>i = n - 1, ..., 0\<close>. \<open>clock i\<close> is what \<open>Date.now()\<close> returns during
  iteration \<open>i\<close>. The state carries \<open>validTaskCount\<close> and \<open>invalidTaskCount\<close>. When
  \<open>addTask\<close> throws, the loop ends there: the result carries the error and the state
  reached so far.
\<close>

fun load_loop ::
  "(nat \<Rightarrow> nat) \<Rightarrow> json list \<Rightarrow> nat \<Rightarrow> app \<times> nat \<times> nat \<Rightarrow> js_error option \<times> app \<times> nat \<times> nat" where
  "load_loop clock tasks 0 s = (None, s)"
| "load_loop clock tasks (Suc i) (st, validTaskCount, invalidTaskCount) =
     (let taskData = tasks ! i in
      if isValidTaskData taskData
      then (case addTask (clock i) (the_string (get_prop ''text'' taskData))
                   (the_bool (get_prop ''completed'' taskData)) (get_prop ''id'' taskData) st of
              Inl err \<Rightarrow> (Some err, st, validTaskCount, invalidTaskCount)
            | Inr st' \<Rightarrow> load_loop clock tasks i (st', validTaskCount + 1, invalidTaskCount))
      else load_loop clock tasks i
             (st\<lparr>console := console st @ [SkippedTask taskData]\<rparr>,
              validTaskCount, invalidTaskCount + 1))"

definition load_failed :: "js_error \<Rightarrow> app \<Rightarrow> app" where
  \<comment> \<open>the \<open>catch\<close> block\<close>
  "load_failed err st =
     st\<lparr>console := console st @ [LoadFailed err],
        alerts := alerts st @ [DATA_CORRUPT err],
        storage := None\<rparr>"

definition loadTasks :: "(nat \<Rightarrow> nat) \<Rightarrow> app \<Rightarrow> app" where
  "loadTasks clock st =
     (case storage st of
        None \<Rightarrow> st
      | Some (NotJSON s) \<Rightarrow> if s = [] then st else load_failed SyntaxError st
      | Some (JSON tasks) \<Rightarrow>
          (case tasks of
             JArray ts \<Rightarrow>
               (case load_loop clock ts (length ts) (st, 0, 0) of
                  (Some err, st', validTaskCount, invalidTaskCount) \<Rightarrow> load_failed err st'
                | (None, st', validTaskCount, invalidTaskCount) \<Rightarrow>
                    if invalidTaskCount > 0
                    then st'\<lparr>console := console st' @ [LoadSummary validTaskCount invalidTaskCount]\<rparr>
                    else st')
           | _ \<Rightarrow> load_failed NotAnArray st))"

definition fresh :: "slot option \<Rightarrow> app" where
  \<comment> \<open>the page as delivered: empty input, empty list; the slot is what the browser kept\<close>
  "fresh s = \<lparr>taskInput = [], taskList = [], storage = s, alerts = [], console = []\<rparr>"

definition init :: "(nat \<Rightarrow> nat) \<Rightarrow> slot option \<Rightarrow> app" where
  "init clock s = loadTasks clock (fresh s)"

subsection \<open>Events of a session and the states they reach\<close>

text \<open>
  A session starts with the page loading over the slot content \<open>s0\<close>. Then the user
  types into the input field, submits it, clicks inside the list (on an item of the list,
  or on none), clears the completed tasks, or loads the page again over the slot as it is.
\<close>

inductive reachable :: "slot option \<Rightarrow> app \<Rightarrow> bool" for s0 :: "slot option" where
  start: "reachable s0 (init clock s0)"
| typed: "reachable s0 st \<Longrightarrow> reachable s0 (st\<lparr>taskInput := txt\<rparr>)"
| add: "reachable s0 st \<Longrightarrow> reachable s0 (handleAdd now st)"
| click: "reachable s0 st \<Longrightarrow>
          (case closest e of None \<Rightarrow> True | Some i \<Rightarrow> i < length (taskList st)) \<Longrightarrow>
          reachable s0 (taskListClick e st)"
| clear: "reachable s0 st \<Longrightarrow> reachable s0 (snd (clearCompletedTasks st))"
| reload: "reachable s0 st \<Longrightarrow> reachable s0 (init clock (storage st))"

subsection \<open>Properties of task lists\<close>

definition incomplete_first :: "task_item list \<Rightarrow> bool" where
  \<comment> \<open>no completed task stands before an incomplete one\<close>
  "incomplete_first ts = sorted_wrt (\<lambda>a b. completed a \<longrightarrow> completed b) ts"

definition text_ok :: "string \<Rightarrow> bool" where
  \<comment> \<open>a task text of the data model: trimmed, not empty, at most 200 characters\<close>
  "text_ok s = (trim s = s \<and> s \<noteq> [] \<and> length s \<le> MAX_TASK_LENGTH)"

definition id_throws :: "json \<Rightarrow> bool" where
  \<comment> \<open>the element passes \<open>isValidTaskData\<close> and storing its id throws (whatever the clock)\<close>
  "id_throws d = (isValidTaskData d \<and> dataset_id (get_prop ''id'' d) 0 = None)"

definition loaded_item :: "(nat \<Rightarrow> nat) \<Rightarrow> nat \<Rightarrow> json \<Rightarrow> task_item option" where
  \<comment> \<open>the item that iteration \<open>i\<close> of the loading loop creates from the element \<open>d\<close>;
      none when the element fails \<open>isValidTaskData\<close> or its id cannot be stored\<close>
  "loaded_item clock i d =
     (if isValidTaskData d
      then map_option
             (\<lambda>s. \<lparr>task_id = s, task_text = the_string (get_prop ''text'' d),
                    completed = the_bool (get_prop ''completed'' d)\<rparr>)
             (dataset_id (get_prop ''id'' d) (clock i))
      else None)"

definition loaded_items :: "(nat \<Rightarrow> nat) \<Rightarrow> (nat \<times> json) list \<Rightarrow> task_item list" where
  \<comment> \<open>the items of a list of elements, each with its index in the array, in that order\<close>
  "loaded_items clock ixs = List.map_filter (\<lambda>(i, d). loaded_item clock i d) ixs"

definition reached :: "json list \<Rightarrow> (nat \<times> json) list" where
  \<comment> \<open>the elements, with their indices, that the backward loop handles before an id throws:
      those after the last element whose id throws, all of them when there is none\<close>
  "reached ts = rev (takeWhile (\<lambda>(i, d). \<not> id_throws d) (rev (enumerate 0 ts)))"

definition added :: "task_item \<Rightarrow> app \<Rightarrow> app" where
  \<comment> \<open>what \<open>addTask\<close> does once the id is set: insert the item by its status, save\<close>
  "added t st = saveTasks (insertTaskIntoList t (completed t) st)"

definition in_sync :: "app \<Rightarrow> bool" where
  \<comment> \<open>the slot holds what \<open>saveTasks\<close> writes for the present list\<close>
  "in_sync st = (storage st = Some (JSON (JArray (map task_json (taskList st)))))"

definition texts_ok :: "task_item list \<Rightarrow> bool" where
  \<comment> \<open>every task of the list has a text of the data model\<close>
  "texts_ok l = list_all (\<lambda>t. text_ok (task_text t)) l"

definition stored_texts_ok :: "slot option \<Rightarrow> bool" where
  \<comment> \<open>every stored element that would be loaded has a text of the data model\<close>
  "stored_texts_ok s =
     (case s of
        Some (JSON (JArray ts)) \<Rightarrow>
          list_all (\<lambda>d. \<not> isValidTaskData d \<or> text_ok (the_string (get_prop ''text'' d))) ts
      | _ \<Rightarrow> True)"

definition payload_corrupt :: "slot \<Rightarrow> bool" where
  \<comment> \<open>the stored string is not empty and not JSON, or it is JSON but not an array\<close>
  "payload_corrupt s = (case s of NotJSON x \<Rightarrow> x \<noteq> [] | JSON j \<Rightarrow> \<not> isArray j)"

subsection \<open>Example states\<close>

definition st1 :: app where
  \<comment> \<open>first visit; add "Buy milk" at clock reading 1, then "Walk dog" at clock reading 2\<close>
  "st1 = handleAdd 2 ((handleAdd 1 ((init (\<lambda>i. 0) None)\<lparr>taskInput := ''Buy milk''\<rparr>))
           \<lparr>taskInput := ''Walk dog''\<rparr>)"

definition st3 :: app where
  \<comment> \<open>in \<open>st1\<close>, complete "Buy milk"\<close>
  "st3 = taskListClick \<lparr>closest = Some 1, target = CompleteBtn\<rparr> st1"

definition st2 :: app where
  \<comment> \<open>in \<open>st1\<close>, complete "Buy milk", then complete "Walk dog"\<close>
  "st2 = taskListClick \<lparr>closest = Some 0, target = CompleteBtn\<rparr>
           (taskListClick \<lparr>closest = Some 1, target = CompleteBtn\<rparr> st1)"

definition padded :: string where
  \<comment> \<open>199 letters and two trailing spaces\<close>
  "padded = replicate 199 (CHR ''a'') @ ''  ''"

definition legacy_payload :: json where
  \<comment> \<open>what the earlier \<open>saveTasks\<close> of the repository wrote: text and completed, no id\<close>
  "legacy_payload = JArray
     [JObject [(''text'', JString ''Buy milk''), (''completed'', JBool False)],
      JObject [(''text'', JString ''Walk dog''), (''completed'', JBool False)]]"


definition bad_id_payload :: json where
  \<comment> \<open>a well-formed element, one without text, and one whose id is an object with a
      \<open>toString\<close> property\<close>
  "bad_id_payload = JArray
     [JObject [(''id'', JString ''1''), (''text'', JString ''Buy milk''), (''completed'', JBool False)],
      JObject [(''id'', JString ''2''), (''completed'', JBool False)],
      JObject [(''id'', JObject [(''toString'', JNumber ''1'')]), (''text'', JString ''Walk dog''),
               (''completed'', JBool True)]]"

definition st_untrimmed :: app where
  \<comment> \<open>the page loaded over a slot that holds one incomplete task with the text "a ",
      and "a " typed into the input field\<close>
  "st_untrimmed =
     (init (\<lambda>i. 5) (Some (JSON (JArray
        [JObject [(''id'', JString ''1''), (''text'', JString ''a ''), (''completed'', JBool False)]]))))
     \<lparr>taskInput := ''a ''\<rparr>"

definition st_long :: app where
  \<comment> \<open>the page loaded over a slot that holds one incomplete task of 201 letters, and the
      same 201 letters typed into the input field\<close>
  "st_long =
     (init (\<lambda>i. 5) (Some (JSON (JArray
        [JObject [(''id'', JString ''1''), (''text'', JString (replicate 201 (CHR ''b''))),
                  (''completed'', JBool False)]]))))
     \<lparr>taskInput := replicate 201 (CHR ''b'')\<rparr>"

definition mixed_payload :: json where
  \<comment> \<open>three elements; the second has no text\<close>
  "mixed_payload = JArray
     [JObject [(''id'', JString ''1''), (''text'', JString ''Buy milk''), (''completed'', JBool False)],
      JObject [(''id'', JString ''2''), (''completed'', JBool False)],
      JObject [(''id'', JString ''3''), (''text'', JString ''Walk dog''), (''completed'', JBool True)]]"

section \<open>Basic facts about the operations\<close>

lemma taskList_saveTasks [simp]: "taskList (saveTasks st) = taskList st"
  by (simp add: saveTasks_def)

lemma alerts_saveTasks [simp]: "alerts (saveTasks st) = alerts st"
  by (simp add: saveTasks_def)

lemma console_saveTasks [simp]: "console (saveTasks st) = console st"
  by (simp add: saveTasks_def)

lemma taskInput_saveTasks [simp]: "taskInput (saveTasks st) = taskInput st"
  by (simp add: saveTasks_def)

lemma storage_saveTasks [simp]:
  "storage (saveTasks st) = Some (JSON (JArray (map task_json (taskList st))))"
  by (simp add: saveTasks_def)

lemma taskList_added:
  "taskList (added t st) = (if completed t then taskList st @ [t] else t # taskList st)"
  by (simp add: added_def insertTaskIntoList_def)

lemma alerts_added [simp]: "alerts (added t st) = alerts st"
  by (simp add: added_def insertTaskIntoList_def)

lemma console_added [simp]: "console (added t st) = console st"
  by (simp add: added_def insertTaskIntoList_def)

lemma taskInput_added [simp]: "taskInput (added t st) = taskInput st"
  by (simp add: added_def insertTaskIntoList_def)

lemma storage_added:
  "storage (added t st) = Some (JSON (JArray (map task_json (taskList (added t st)))))"
  by (simp add: added_def)

lemma addTask_added:
  "addTask now txt c idv st =
     (case dataset_id idv now of
        None \<Rightarrow> Inl TypeError
      | Some s \<Rightarrow> Inr (added \<lparr>task_id = s, task_text = txt, completed = c\<rparr> st))"
  by (simp add: addTask_def added_def Let_def split: option.splits)

lemma dataset_id_no_id [simp]: "dataset_id None now = Some (nat_to_string now)"
  by (simp add: dataset_id_def)

lemma dataset_id_None_iff: "dataset_id idv now = None \<longleftrightarrow> dataset_id idv 0 = None"
  by (simp add: dataset_id_def split: option.splits)

lemma addTask_no_id:
  "addTask now txt c None st =
     Inr (added \<lparr>task_id = nat_to_string now, task_text = txt, completed = c\<rparr> st)"
  by (simp add: addTask_added)

lemma handleAdd_added:
  "handleAdd now st =
     (if taskInput st = [] then st\<lparr>alerts := alerts st @ [EMPTY_TASK]\<rparr>
      else if trim (taskInput st) = []
        then st\<lparr>alerts := alerts st @ [WHITESPACE_ONLY], taskInput := []\<rparr>
      else if length (taskInput st) > MAX_TASK_LENGTH
        then st\<lparr>alerts := alerts st @ [TASK_TOO_LONG]\<rparr>
      else if list_ex (\<lambda>t. toLowerCase (task_text t) = toLowerCase (trim (taskInput st)) \<and>
                 \<not> completed t) (taskList st)
        then st\<lparr>alerts := alerts st @ [TASK_EXISTS]\<rparr>
      else (added \<lparr>task_id = nat_to_string now, task_text = trim (taskInput st),
                   completed = False\<rparr> st)\<lparr>taskInput := []\<rparr>)"
  by (simp add: handleAdd_def Let_def addTask_no_id)

lemma taskList_deleteTask [simp]:
  "taskList (deleteTask i st) = take i (taskList st) @ drop (Suc i) (taskList st)"
  by (simp add: deleteTask_def)

lemma alerts_deleteTask [simp]: "alerts (deleteTask i st) = alerts st"
  by (simp add: deleteTask_def)

lemma console_deleteTask [simp]: "console (deleteTask i st) = console st"
  by (simp add: deleteTask_def)

lemma alerts_toggleComplete [simp]: "alerts (toggleComplete i st) = alerts st"
  by (simp add: toggleComplete_def Let_def)

lemma console_toggleComplete [simp]: "console (toggleComplete i st) = console st"
  by (simp add: toggleComplete_def Let_def)

lemma taskList_toggleComplete:
  "i < length (taskList st) \<Longrightarrow>
   taskList (toggleComplete i st) =
     (if completed (taskList st ! i)
      then (taskList st ! i)\<lparr>completed := False\<rparr> # take i (taskList st) @ drop (Suc i) (taskList st)
      else take i (taskList st) @ drop (Suc i) (taskList st) @ [(taskList st ! i)\<lparr>completed := True\<rparr>])"
  by (simp add: toggleComplete_def Let_def)

lemma storage_toggleComplete:
  "storage (toggleComplete i st) =
     (if i < length (taskList st)
      then Some (JSON (JArray (map task_json (taskList (toggleComplete i st)))))
      else storage st)"
  by (simp add: toggleComplete_def Let_def)

lemma taskList_clearCompletedTasks [simp]:
  "taskList (snd (clearCompletedTasks st)) = filter (\<lambda>t. \<not> completed t) (taskList st)"
  by (simp add: clearCompletedTasks_def)

lemma fresh_simps [simp]:
  "taskList (fresh s) = []" "storage (fresh s) = s" "alerts (fresh s) = []"
  "console (fresh s) = []" "taskInput (fresh s) = []"
  by (simp_all add: fresh_def)

lemma isArray_iff: "isArray j \<longleftrightarrow> (\<exists>ts. j = JArray ts)"
  by (cases j) simp_all

lemma loadTasks_not_array:
  "\<not> isArray j \<Longrightarrow> loadTasks clock (st\<lparr>storage := Some (JSON j)\<rparr>) =
     load_failed NotAnArray (st\<lparr>storage := Some (JSON j)\<rparr>)"
  by (cases j) (simp_all add: loadTasks_def)

subsection \<open>Strings\<close>

lemma length_trim_le: "length (trim s) \<le> length s"
proof -
  have "length (trim s) \<le> length (dropWhile is_space s)"
    unfolding trim_def using length_dropWhile_le [of is_space "rev (dropWhile is_space s)"] by simp
  also have "\<dots> \<le> length s" by (rule length_dropWhile_le)
  finally show ?thesis .
qed

lemma trim_eq_self_iff:
  "trim s = s \<longleftrightarrow> s = [] \<or> (\<not> is_space (hd s) \<and> \<not> is_space (last s))"
proof (cases "s = []")
  case True
  then show ?thesis by (simp add: trim_def)
next
  case False
  show ?thesis
  proof
    assume t: "trim s = s"
    have len: "length (dropWhile is_space s) = length s"
      using t length_dropWhile_le [of is_space "rev (dropWhile is_space s)"]
        length_dropWhile_le [of is_space s]
      by (metis le_antisym length_rev trim_def)
    have "length (takeWhile is_space s) + length (dropWhile is_space s) = length s"
      by (metis length_append takeWhile_dropWhile_id)
    with len have "takeWhile is_space s = []" by simp
    then have d1: "dropWhile is_space s = s"
      by (metis append_Nil takeWhile_dropWhile_id)
    with t have "rev (dropWhile is_space (rev s)) = s" by (simp add: trim_def)
    then have d2: "dropWhile is_space (rev s) = rev s" by (metis rev_rev_ident)
    from d1 False have "\<not> is_space (hd s)" by (simp add: dropWhile_eq_self_iff)
    moreover from d2 False have "\<not> is_space (last s)"
      by (simp add: dropWhile_eq_self_iff hd_rev)
    ultimately show "s = [] \<or> (\<not> is_space (hd s) \<and> \<not> is_space (last s))" by simp
  next
    assume "s = [] \<or> (\<not> is_space (hd s) \<and> \<not> is_space (last s))"
    with False have h: "\<not> is_space (hd s)" "\<not> is_space (last s)" by simp_all
    have "dropWhile is_space s = s" using h(1) by (simp add: dropWhile_eq_self_iff)
    moreover have "dropWhile is_space (rev s) = rev s"
      using h(2) False by (simp add: dropWhile_eq_self_iff hd_rev)
    ultimately show "trim s = s" by (simp add: trim_def)
  qed
qed

lemma trim_idem [simp]: "trim (trim s) = trim s"
proof (cases "trim s = []")
  case True
  have "trim [] = []" by (simp add: trim_def)
  with True show ?thesis by simp
next
  case False
  let ?u = "dropWhile is_space s"
  let ?v = "dropWhile is_space (rev ?u)"
  have v: "?v \<noteq> []" using False by (simp add: trim_def)
  then have u: "rev ?u \<noteq> []" by (metis dropWhile.simps(1))
  have "\<not> is_space (hd ?v)" using v by (rule hd_dropWhile)
  then have 1: "\<not> is_space (last (trim s))" using v by (simp add: trim_def last_rev)
  have "hd (trim s) = last ?v" using v by (simp add: trim_def hd_rev)
  also have "\<dots> = last (rev ?u)"
    by (metis dropWhile_last hd_dropWhile last_in_set last_rev rev_is_Nil_conv u)
  also have "\<dots> = hd ?u" using u by (simp add: last_rev)
  finally have "hd (trim s) = hd ?u" .
  moreover have "\<not> is_space (hd ?u)" using u hd_dropWhile [of is_space s] by simp
  ultimately have 2: "\<not> is_space (hd (trim s))" by simp
  from 1 2 show ?thesis by (simp add: trim_eq_self_iff)
qed

lemma trim_Nil [simp]: "trim [] = []"
  by (simp add: trim_def)

subsection \<open>The ordering of the list\<close>

lemma incomplete_first_remove:
  assumes "incomplete_first l"
  shows "incomplete_first (take i l @ drop (Suc i) l)"
proof -
  let ?P = "\<lambda>a b. completed a \<longrightarrow> completed b"
  have l: "sorted_wrt ?P l" using assms by (simp add: incomplete_first_def)
  then have "sorted_wrt ?P (take i l @ drop i l)" by simp
  then have cross: "\<forall>x\<in>set (take i l). \<forall>y\<in>set (drop i l). ?P x y"
    unfolding sorted_wrt_append by blast
  have "set (drop (Suc i) l) \<subseteq> set (drop i l)"
    by (rule set_drop_subset_set_drop) simp
  with cross have "\<forall>x\<in>set (take i l). \<forall>y\<in>set (drop (Suc i) l). ?P x y" by blast
  moreover have "sorted_wrt ?P (take i l)" "sorted_wrt ?P (drop (Suc i) l)"
    using l by (simp_all add: sorted_wrt_take sorted_wrt_drop)
  ultimately show ?thesis
    unfolding incomplete_first_def sorted_wrt_append by blast
qed

lemma incomplete_first_added:
  "incomplete_first (taskList st) \<Longrightarrow> incomplete_first (taskList (added t st))"
  by (auto simp: taskList_added incomplete_first_def sorted_wrt_append)

lemma incomplete_first_addTask:
  "incomplete_first (taskList st) \<Longrightarrow> addTask now txt c idv st = Inr st' \<Longrightarrow>
   incomplete_first (taskList st')"
  by (auto simp: addTask_added incomplete_first_added split: option.splits)

lemma incomplete_first_toggleComplete:
  "incomplete_first (taskList st) \<Longrightarrow> incomplete_first (taskList (toggleComplete i st))"
  using incomplete_first_remove [of "taskList st" i]
  by (auto simp: toggleComplete_def Let_def incomplete_first_def sorted_wrt_append)

lemma incomplete_first_filter:
  "incomplete_first l \<Longrightarrow> incomplete_first (filter P l)"
  by (simp add: incomplete_first_def sorted_wrt_filter)

lemma incomplete_first_handleAdd:
  "incomplete_first (taskList st) \<Longrightarrow> incomplete_first (taskList (handleAdd now st))"
  by (simp add: handleAdd_added incomplete_first_added)

lemma incomplete_first_load_loop:
  "incomplete_first (taskList st) \<Longrightarrow>
   incomplete_first (taskList (fst (snd (load_loop clock ts n (st, v, k)))))"
proof (induction n arbitrary: st v k)
  case 0
  then show ?case by simp
next
  case (Suc n)
  show ?case
  proof (cases "isValidTaskData (ts ! n)")
    case True
    show ?thesis
    proof (cases "dataset_id (get_prop ''id'' (ts ! n)) (clock n)")
      case None
      with True Suc.prems show ?thesis by (simp add: addTask_added Let_def)
    next
      case (Some s)
      with True show ?thesis
        using Suc.IH [OF incomplete_first_added [OF Suc.prems]]
        by (simp add: addTask_added Let_def)
    qed
  next
    case False
    then show ?thesis
      using Suc.IH [of "st\<lparr>console := console st @ [SkippedTask (ts ! n)]\<rparr>"] Suc.prems
      by (simp add: Let_def)
  qed
qed

lemma loadTasks_array_loop:
  assumes "storage st = Some (JSON (JArray ts))"
    and "load_loop clock ts (length ts) (st, 0, 0) = (e, st', v, k)"
  shows "loadTasks clock st =
     (case e of
        Some err \<Rightarrow> load_failed err st'
      | None \<Rightarrow> if k > 0 then st'\<lparr>console := console st' @ [LoadSummary v k]\<rparr> else st')"
  using assms by (simp add: loadTasks_def split: option.splits)

lemma taskList_loadTasks:
  "taskList (loadTasks clock st) =
     (case storage st of
        Some (JSON (JArray ts)) \<Rightarrow> taskList (fst (snd (load_loop clock ts (length ts) (st, 0, 0))))
      | _ \<Rightarrow> taskList st)"
proof (cases "storage st")
  case None
  then show ?thesis by (simp add: loadTasks_def)
next
  case (Some s)
  show ?thesis
  proof (cases s)
    case (NotJSON x)
    with Some show ?thesis by (simp add: loadTasks_def load_failed_def)
  next
    case (JSON j)
    show ?thesis
    proof (cases j)
      case (JArray ts)
      obtain e st' v k where l: "load_loop clock ts (length ts) (st, 0, 0) = (e, st', v, k)"
        by (cases "load_loop clock ts (length ts) (st, 0, 0)") auto
      have "storage st = Some (JSON (JArray ts))" using Some JSON JArray by simp
      from loadTasks_array_loop [OF this l] l Some JSON JArray show ?thesis
        by (simp add: load_failed_def split: option.splits)
    qed (use Some JSON in \<open>simp_all add: loadTasks_def load_failed_def\<close>)
  qed
qed

lemma incomplete_first_loadTasks:
  "incomplete_first (taskList st) \<Longrightarrow> incomplete_first (taskList (loadTasks clock st))"
  by (simp add: taskList_loadTasks incomplete_first_load_loop
      split: option.splits slot.splits json.splits)

lemma incomplete_first_taskListClick:
  "incomplete_first (taskList st) \<Longrightarrow> incomplete_first (taskList (taskListClick e st))"
  by (simp add: taskListClick_def incomplete_first_remove incomplete_first_toggleComplete
      split: option.splits)

lemma incomplete_first_init: "incomplete_first (taskList (init clock s))"
  unfolding init_def by (rule incomplete_first_loadTasks) (simp add: incomplete_first_def)

lemma reachable_incomplete_first: "reachable s0 st \<Longrightarrow> incomplete_first (taskList st)"
proof (induction rule: reachable.induct)
  case (start clock)
  show ?case by (rule incomplete_first_init)
next
  case (typed st v)
  then show ?case by simp
next
  case (add st now)
  then show ?case by (simp add: incomplete_first_handleAdd)
next
  case (click st e)
  then show ?case by (simp add: incomplete_first_taskListClick)
next
  case (clear st)
  then show ?case by (simp add: incomplete_first_filter)
next
  case (reload st clock)
  show ?case by (rule incomplete_first_init)
qed

subsection \<open>What the loading loop builds\<close>

lemma reached_snoc:
  assumes "n < length ts"
  shows "reached (take (Suc n) ts) =
     (if id_throws (ts ! n) then [] else reached (take n ts) @ [(n, ts ! n)])"
proof -
  have "enumerate 0 (take (Suc n) ts) = enumerate 0 (take n ts) @ [(n, ts ! n)]"
    using assms by (simp add: take_Suc_conv_app_nth enumerate_append_eq min_def)
  then show ?thesis by (simp add: reached_def)
qed

lemma reached_no_throw:
  assumes "\<forall>d\<in>set ts. \<not> id_throws d"
  shows "reached ts = enumerate 0 ts"
proof -
  have "\<forall>x\<in>set (rev (enumerate 0 ts)). (\<lambda>(i, d). \<not> id_throws d) x"
    using assms by (auto simp: in_set_enumerate_eq)
  then have "takeWhile (\<lambda>(i, d). \<not> id_throws d) (rev (enumerate 0 ts)) = rev (enumerate 0 ts)"
    by (simp only: takeWhile_eq_all_conv)
  then have "reached ts = rev (rev (enumerate 0 ts))"
    unfolding reached_def by (rule arg_cong)
  then show ?thesis by (simp only: rev_rev_ident)
qed

lemma reached_subset: "set (reached ts) \<subseteq> set (enumerate 0 ts)"
  unfolding reached_def using set_takeWhileD by fastforce

lemma reached_not_throws: "(i, d) \<in> set (reached ts) \<Longrightarrow> \<not> id_throws d"
  unfolding reached_def using set_takeWhileD by fastforce

lemma throws_iff: "id_throws d \<longleftrightarrow> isValidTaskData d \<and> dataset_id (get_prop ''id'' d) now = None"
  using dataset_id_None_iff [of "get_prop ''id'' d" now] by (simp add: id_throws_def)

lemma loaded_items_append [simp]:
  "loaded_items clock (xs @ ys) = loaded_items clock xs @ loaded_items clock ys"
  by (simp add: loaded_items_def map_filter_def)

lemma loaded_items_Nil [simp]: "loaded_items clock [] = []"
  by (simp add: loaded_items_def map_filter_def)

lemma loaded_items_single:
  "loaded_items clock [(i, d)] = (case loaded_item clock i d of None \<Rightarrow> [] | Some t \<Rightarrow> [t])"
  by (simp add: loaded_items_def map_filter_def split: option.splits)

lemma loaded_item_invalid [simp]: "\<not> isValidTaskData d \<Longrightarrow> loaded_item clock i d = None"
  by (simp add: loaded_item_def)

lemma loaded_item_valid:
  "isValidTaskData d \<Longrightarrow> dataset_id (get_prop ''id'' d) (clock i) = Some s \<Longrightarrow>
   loaded_item clock i d =
     Some \<lparr>task_id = s, task_text = the_string (get_prop ''text'' d),
           completed = the_bool (get_prop ''completed'' d)\<rparr>"
  by (simp add: loaded_item_def)

lemma load_loop_Suc:
  "load_loop clock ts (Suc n) (st, v, k) =
     (if isValidTaskData (ts ! n)
      then (case dataset_id (get_prop ''id'' (ts ! n)) (clock n) of
              None \<Rightarrow> (Some TypeError, st, v, k)
            | Some s \<Rightarrow>
                load_loop clock ts n
                  (added \<lparr>task_id = s, task_text = the_string (get_prop ''text'' (ts ! n)),
                          completed = the_bool (get_prop ''completed'' (ts ! n))\<rparr> st,
                   v + 1, k))
      else load_loop clock ts n (st\<lparr>console := console st @ [SkippedTask (ts ! n)]\<rparr>, v, k + 1))"
  by (simp add: Let_def addTask_added split: option.splits)

lemma loaded_items_reached_Suc:
  assumes "n < length ts" "\<not> id_throws (ts ! n)"
  shows "loaded_items clock (reached (take (Suc n) ts)) =
     loaded_items clock (reached (take n ts)) @
       (case loaded_item clock n (ts ! n) of None \<Rightarrow> [] | Some t \<Rightarrow> [t])"
  using assms by (simp add: reached_snoc loaded_items_single)

lemma load_loop_error:
  "n \<le> length ts \<Longrightarrow>
   fst (load_loop clock ts n (st, v, k)) =
     (if \<exists>d\<in>set (take n ts). id_throws d then Some TypeError else None)"
proof (induction n arbitrary: st v k)
  case 0
  then show ?case by simp
next
  case (Suc n)
  then have n: "n < length ts" "n \<le> length ts" by simp_all
  have tk: "take (Suc n) ts = take n ts @ [ts ! n]" using n(1) by (rule take_Suc_conv_app_nth)
  show ?case
  proof (cases "id_throws (ts ! n)")
    case True
    then show ?thesis
      using throws_iff [of "ts ! n" "clock n"] by (simp add: load_loop_Suc tk del: load_loop.simps)
  next
    case False
    then show ?thesis
      using throws_iff [of "ts ! n" "clock n"] Suc.IH [OF n(2)]
      by (auto simp: load_loop_Suc tk simp del: load_loop.simps split: option.splits)
  qed
qed

lemma taskList_load_loop:
  "n \<le> length ts \<Longrightarrow>
   taskList (fst (snd (load_loop clock ts n (st, v, k)))) =
     filter (\<lambda>t. \<not> completed t) (loaded_items clock (reached (take n ts))) @ taskList st @
     rev (filter completed (loaded_items clock (reached (take n ts))))"
proof (induction n arbitrary: st v k)
  case 0
  then show ?case by (simp add: reached_def)
next
  case (Suc n)
  then have n: "n < length ts" "n \<le> length ts" by simp_all
  show ?case
  proof (cases "id_throws (ts ! n)")
    case True
    then show ?thesis
      using throws_iff [of "ts ! n" "clock n"]
      by (simp add: load_loop_Suc reached_snoc [OF n(1)] del: load_loop.simps)
  next
    case False
    show ?thesis
    proof (cases "isValidTaskData (ts ! n)")
      case v: True
      with False obtain s where s: "dataset_id (get_prop ''id'' (ts ! n)) (clock n) = Some s"
        using throws_iff [of "ts ! n" "clock n"] by auto
      show ?thesis
        using v s Suc.IH [OF n(2)]
        by (simp add: load_loop_Suc loaded_items_reached_Suc [OF n(1) False]
            loaded_item_valid [of "ts ! n" clock n s] taskList_added del: load_loop.simps)
    next
      case i: False
      show ?thesis
        using i Suc.IH [OF n(2)]
        by (simp add: load_loop_Suc loaded_items_reached_Suc [OF n(1) False] del: load_loop.simps)
    qed
  qed
qed

lemma alerts_load_loop [simp]:
  "alerts (fst (snd (load_loop clock ts n (st, v, k)))) = alerts st"
  by (induction n arbitrary: st v k)
    (simp_all add: load_loop_Suc del: load_loop.simps(2) split: option.splits)

lemma taskInput_load_loop [simp]:
  "taskInput (fst (snd (load_loop clock ts n (st, v, k)))) = taskInput st"
  by (induction n arbitrary: st v k)
    (simp_all add: load_loop_Suc del: load_loop.simps(2) split: option.splits)

lemma in_sync_load_loop:
  "in_sync st \<Longrightarrow> in_sync (fst (snd (load_loop clock ts n (st, v, k))))"
proof (induction n arbitrary: st v k)
  case 0
  then show ?case by simp
next
  case (Suc n)
  have a: "in_sync (added t st)" for t by (simp add: in_sync_def storage_added)
  have c: "in_sync (st\<lparr>console := console st @ [SkippedTask (ts ! n)]\<rparr>)"
    using Suc.prems by (simp add: in_sync_def)
  show ?case
    using Suc.IH [OF a] Suc.IH [OF c] Suc.prems
    by (simp add: load_loop_Suc del: load_loop.simps split: option.splits)
qed

lemma storage_load_loop:
  "in_sync (fst (snd (load_loop clock ts n (st, v, k)))) \<or>
   storage (fst (snd (load_loop clock ts n (st, v, k)))) = storage st"
proof (induction n arbitrary: st v k)
  case 0
  then show ?case by simp
next
  case (Suc n)
  have a: "in_sync (added t st)" for t by (simp add: in_sync_def storage_added)
  show ?case
    using in_sync_load_loop [OF a]
      Suc.IH [of "st\<lparr>console := console st @ [SkippedTask (ts ! n)]\<rparr>"]
    by (simp add: load_loop_Suc del: load_loop.simps split: option.splits)
qed

lemma console_load_loop:
  "n \<le> length ts \<Longrightarrow>
   console (fst (snd (load_loop clock ts n (st, v, k)))) =
     console st @
     map SkippedTask (rev (filter (\<lambda>d. \<not> isValidTaskData d) (map snd (reached (take n ts)))))"
proof (induction n arbitrary: st v k)
  case 0
  then show ?case by (simp add: reached_def)
next
  case (Suc n)
  then have n: "n < length ts" "n \<le> length ts" by simp_all
  show ?case
  proof (cases "id_throws (ts ! n)")
    case True
    then show ?thesis
      using throws_iff [of "ts ! n" "clock n"]
      by (simp add: load_loop_Suc reached_snoc [OF n(1)] del: load_loop.simps)
  next
    case False
    then show ?thesis
      using throws_iff [of "ts ! n" "clock n"] Suc.IH [OF n(2)]
      by (auto simp: load_loop_Suc reached_snoc [OF n(1)] simp del: load_loop.simps
          split: option.splits)
  qed
qed

lemma counts_load_loop:
  "n \<le> length ts \<Longrightarrow>
   snd (snd (load_loop clock ts n (st, v, k))) =
     (v + length (loaded_items clock (reached (take n ts))),
      k + length (filter (\<lambda>d. \<not> isValidTaskData d) (map snd (reached (take n ts)))))"
proof (induction n arbitrary: st v k)
  case 0
  then show ?case by (simp add: reached_def)
next
  case (Suc n)
  then have n: "n < length ts" "n \<le> length ts" by simp_all
  show ?case
  proof (cases "id_throws (ts ! n)")
    case True
    then show ?thesis
      using throws_iff [of "ts ! n" "clock n"]
      by (simp add: load_loop_Suc reached_snoc [OF n(1)] del: load_loop.simps)
  next
    case False
    show ?thesis
    proof (cases "isValidTaskData (ts ! n)")
      case v: True
      with False obtain s where s: "dataset_id (get_prop ''id'' (ts ! n)) (clock n) = Some s"
        using throws_iff [of "ts ! n" "clock n"] by auto
      show ?thesis
        using v s False Suc.IH [OF n(2)]
        by (simp add: load_loop_Suc loaded_items_single
            loaded_item_valid [of "ts ! n" clock n s] reached_snoc [OF n(1)] del: load_loop.simps)
    next
      case i: False
      show ?thesis
        using i False Suc.IH [OF n(2)]
        by (simp add: load_loop_Suc loaded_items_single
            reached_snoc [OF n(1)] del: load_loop.simps)
    qed
  qed
qed

lemma map_snd_enumerate [simp]: "map snd (enumerate n xs) = xs"
  by (induction xs arbitrary: n) simp_all

lemma loaded_item_None_iff:
  "loaded_item clock i d = None \<longleftrightarrow> \<not> isValidTaskData d \<or> id_throws d"
  using throws_iff [of d "clock i"] by (auto simp: loaded_item_def)

lemma loaded_items_Cons:
  "loaded_items clock ((i, d) # xs) =
     (case loaded_item clock i d of None \<Rightarrow> [] | Some t \<Rightarrow> [t]) @ loaded_items clock xs"
  by (simp add: loaded_items_def split: option.splits)

lemma length_loaded_items_no_throw:
  "\<forall>d\<in>set ts. \<not> id_throws d \<Longrightarrow>
   length (loaded_items clock (enumerate n ts)) = length (filter isValidTaskData ts)"
proof (induction ts arbitrary: n)
  case Nil
  then show ?case by simp
next
  case (Cons d ts)
  then have "\<not> id_throws d" by simp
  then have "(loaded_item clock n d = None) = (\<not> isValidTaskData d)"
    by (simp add: loaded_item_None_iff)
  then show ?case
    using Cons by (auto simp: loaded_items_Cons split: option.splits)
qed

lemma loadTasks_array:
  assumes "storage st = Some (JSON (JArray ts))"
  shows "taskList (loadTasks clock st) =
           filter (\<lambda>t. \<not> completed t) (loaded_items clock (reached ts)) @ taskList st @
           rev (filter completed (loaded_items clock (reached ts)))"
    and "alerts (loadTasks clock st) =
           alerts st @ (if \<exists>d\<in>set ts. id_throws d then [DATA_CORRUPT TypeError] else [])"
    and "if \<exists>d\<in>set ts. id_throws d then storage (loadTasks clock st) = None
         else in_sync (loadTasks clock st) \<or> storage (loadTasks clock st) = storage st"
    and "console (loadTasks clock st) =
           console st @
           map SkippedTask (rev (filter (\<lambda>d. \<not> isValidTaskData d) (map snd (reached ts)))) @
           (if \<exists>d\<in>set ts. id_throws d then [LoadFailed TypeError]
            else if \<exists>d\<in>set ts. \<not> isValidTaskData d
            then [LoadSummary (length (filter isValidTaskData ts))
                    (length (filter (\<lambda>d. \<not> isValidTaskData d) ts))]
            else [])"
proof -
  obtain e st' v k where l: "load_loop clock ts (length ts) (st, 0, 0) = (e, st', v, k)"
    by (cases "load_loop clock ts (length ts) (st, 0, 0)") auto
  have e: "e = fst (load_loop clock ts (length ts) (st, 0, 0))"
    and st': "st' = fst (snd (load_loop clock ts (length ts) (st, 0, 0)))"
    and vk: "(v, k) = snd (snd (load_loop clock ts (length ts) (st, 0, 0)))"
    using l by simp_all
  note r = loadTasks_array_loop [OF assms l]
  have err: "e = (if \<exists>d\<in>set ts. id_throws d then Some TypeError else None)"
    unfolding e using load_loop_error [of "length ts" ts clock st 0 0] by simp
  have tl: "taskList st' =
           filter (\<lambda>t. \<not> completed t) (loaded_items clock (reached ts)) @ taskList st @
           rev (filter completed (loaded_items clock (reached ts)))"
    unfolding st' using taskList_load_loop [of "length ts" ts clock st 0 0] by simp
  have al: "alerts st' = alerts st" unfolding st' by simp
  have co: "console st' = console st @
      map SkippedTask (rev (filter (\<lambda>d. \<not> isValidTaskData d) (map snd (reached ts))))"
    unfolding st' using console_load_loop [of "length ts" ts clock st 0 0] by simp
  have sy: "in_sync st' \<or> storage st' = storage st"
    unfolding st' by (rule storage_load_loop)
  have cnt: "v = length (loaded_items clock (reached ts))"
    "k = length (filter (\<lambda>d. \<not> isValidTaskData d) (map snd (reached ts)))"
    using vk counts_load_loop [of "length ts" ts clock st 0 0] by simp_all
  show "taskList (loadTasks clock st) =
           filter (\<lambda>t. \<not> completed t) (loaded_items clock (reached ts)) @ taskList st @
           rev (filter completed (loaded_items clock (reached ts)))"
    using r tl by (simp add: load_failed_def split: option.splits)
  show "alerts (loadTasks clock st) =
           alerts st @ (if \<exists>d\<in>set ts. id_throws d then [DATA_CORRUPT TypeError] else [])"
    using r al err by (simp add: load_failed_def split: option.splits)
  show "if \<exists>d\<in>set ts. id_throws d then storage (loadTasks clock st) = None
         else in_sync (loadTasks clock st) \<or> storage (loadTasks clock st) = storage st"
    using r sy err by (auto simp: load_failed_def in_sync_def split: option.splits)
  show "console (loadTasks clock st) =
           console st @
           map SkippedTask (rev (filter (\<lambda>d. \<not> isValidTaskData d) (map snd (reached ts)))) @
           (if \<exists>d\<in>set ts. id_throws d then [LoadFailed TypeError]
            else if \<exists>d\<in>set ts. \<not> isValidTaskData d
            then [LoadSummary (length (filter isValidTaskData ts))
                    (length (filter (\<lambda>d. \<not> isValidTaskData d) ts))]
            else [])"
  proof (cases "\<exists>d\<in>set ts. id_throws d")
    case True
    then show ?thesis using r co err by (simp add: load_failed_def)
  next
    case False
    then have re: "reached ts = enumerate 0 ts" by (simp add: reached_no_throw)
    have items: "length (loaded_items clock (enumerate 0 ts)) = length (filter isValidTaskData ts)"
      using False by (simp add: length_loaded_items_no_throw)
    have kpos: "k > 0 \<longleftrightarrow> (\<exists>d\<in>set ts. \<not> isValidTaskData d)"
      unfolding cnt re by (simp add: filter_empty_conv)
    show ?thesis using False r co err cnt kpos items by (simp add: re)
  qed
qed

subsection \<open>The example states\<close>

lemma reachable_st1: "reachable None st1"
  unfolding st1_def by (intro reachable.add reachable.typed reachable.start)

lemma taskList_st1:
  "taskList st1 =
     [\<lparr>task_id = ''2'', task_text = ''Walk dog'', completed = False\<rparr>,
      \<lparr>task_id = ''1'', task_text = ''Buy milk'', completed = False\<rparr>]"
  unfolding st1_def by code_simp

lemma reachable_st2: "reachable None st2"
  unfolding st2_def by (intro reachable.click reachable_st1) (simp_all add: taskList_st1 taskList_toggleComplete taskListClick_def)

lemma taskList_st2:
  "taskList st2 =
     [\<lparr>task_id = ''1'', task_text = ''Buy milk'', completed = True\<rparr>,
      \<lparr>task_id = ''2'', task_text = ''Walk dog'', completed = True\<rparr>]"
  unfolding st2_def st1_def by code_simp

lemma reachable_st3: "reachable None st3"
  unfolding st3_def by (rule reachable.click [OF reachable_st1]) (simp add: taskList_st1)

lemma taskList_st3:
  "taskList st3 =
     [\<lparr>task_id = ''2'', task_text = ''Walk dog'', completed = False\<rparr>,
      \<lparr>task_id = ''1'', task_text = ''Buy milk'', completed = True\<rparr>]"
  unfolding st3_def st1_def by code_simp

lemma init_corrupt:
  assumes "payload_corrupt s"
  shows "init clock (Some s) =
     load_failed (case s of NotJSON x \<Rightarrow> SyntaxError | JSON j \<Rightarrow> NotAnArray) (fresh (Some s))"
proof (cases s)
  case (JSON j)
  with assms have "\<not> isArray j" by (simp add: payload_corrupt_def)
  then show ?thesis using JSON by (cases j) (simp_all add: init_def loadTasks_def)
next
  case (NotJSON x)
  with assms show ?thesis by (simp add: payload_corrupt_def init_def loadTasks_def)
qed

lemma init_array_no_throw:
  assumes "list_all (\<lambda>d. \<not> id_throws d) ts"
  shows "taskList (init clock (Some (JSON (JArray ts)))) =
           filter (\<lambda>t. \<not> completed t) (loaded_items clock (enumerate 0 ts)) @
           rev (filter completed (loaded_items clock (enumerate 0 ts)))"
    and "alerts (init clock (Some (JSON (JArray ts)))) = []"
    and "storage (init clock (Some (JSON (JArray ts)))) \<noteq> None"
    and "console (init clock (Some (JSON (JArray ts)))) =
           map SkippedTask (rev (filter (\<lambda>d. \<not> isValidTaskData d) ts)) @
           (if \<exists>d\<in>set ts. \<not> isValidTaskData d
            then [LoadSummary (length (filter isValidTaskData ts))
                    (length (filter (\<lambda>d. \<not> isValidTaskData d) ts))]
            else [])"
proof -
  let ?st = "fresh (Some (JSON (JArray ts)))"
  have st: "storage ?st = Some (JSON (JArray ts))" by simp
  have no: "\<not> (\<exists>d\<in>set ts. id_throws d)" using assms by (simp add: list_all_iff)
  then have re: "reached ts = enumerate 0 ts" by (simp add: reached_no_throw)
  show "taskList (init clock (Some (JSON (JArray ts)))) =
           filter (\<lambda>t. \<not> completed t) (loaded_items clock (enumerate 0 ts)) @
           rev (filter completed (loaded_items clock (enumerate 0 ts)))"
    using loadTasks_array(1) [OF st, of clock] by (simp add: init_def re)
  show "alerts (init clock (Some (JSON (JArray ts)))) = []"
    using loadTasks_array(2) [OF st, of clock] no by (simp add: init_def)
  show "storage (init clock (Some (JSON (JArray ts)))) \<noteq> None"
    using loadTasks_array(3) [OF st, of clock] no by (auto simp: init_def in_sync_def)
  show "console (init clock (Some (JSON (JArray ts)))) =
           map SkippedTask (rev (filter (\<lambda>d. \<not> isValidTaskData d) ts)) @
           (if \<exists>d\<in>set ts. \<not> isValidTaskData d
            then [LoadSummary (length (filter isValidTaskData ts))
                    (length (filter (\<lambda>d. \<not> isValidTaskData d) ts))]
            else [])"
    using loadTasks_array(4) [OF st, of clock] no by (simp add: init_def re)
qed

lemma load_stops_at_unconvertible_id:
  assumes "\<exists>d\<in>set ts. id_throws d"
  shows "alerts (init clock (Some (JSON (JArray ts)))) = [DATA_CORRUPT TypeError]"
    and "storage (init clock (Some (JSON (JArray ts)))) = None"
    and "taskList (init clock (Some (JSON (JArray ts)))) =
           filter (\<lambda>t. \<not> completed t) (loaded_items clock (reached ts)) @
           rev (filter completed (loaded_items clock (reached ts)))"
  using loadTasks_array(1,2,3) [of "fresh (Some (JSON (JArray ts)))" ts clock] assms
  by (simp_all add: init_def)

subsection \<open>Texts in a session\<close>

lemma text_ok_trim: "trim s \<noteq> [] \<Longrightarrow> length s \<le> MAX_TASK_LENGTH \<Longrightarrow> text_ok (trim s)"
  using length_trim_le [of s] by (simp add: text_ok_def)

lemma isValidTaskData_task_json [simp]:
  "isValidTaskData (task_json t) \<longleftrightarrow> trim (task_text t) \<noteq> []"
  by (simp add: isValidTaskData_def task_json_def)

lemma stored_texts_ok_saved:
  "texts_ok l \<Longrightarrow> stored_texts_ok (Some (JSON (JArray (map task_json l))))"
  by (simp add: stored_texts_ok_def texts_ok_def list_all_iff task_json_def)

lemma stored_texts_ok_in_sync:
  "in_sync st \<Longrightarrow> texts_ok (taskList st) \<Longrightarrow> stored_texts_ok (storage st)"
  by (simp add: in_sync_def stored_texts_ok_saved)

lemma in_set_loaded_items:
  "t \<in> set (loaded_items clock ixs) \<Longrightarrow>
   \<exists>i d. (i, d) \<in> set ixs \<and> loaded_item clock i d = Some t"
  by (fastforce simp: loaded_items_def map_filter_def)

lemma texts_ok_loaded_items:
  assumes "stored_texts_ok (Some (JSON (JArray ts)))"
  shows "texts_ok (loaded_items clock (reached ts))"
proof -
  have ok: "\<forall>d\<in>set ts. isValidTaskData d \<longrightarrow> text_ok (the_string (get_prop ''text'' d))"
    using assms by (auto simp: stored_texts_ok_def list_all_iff)
  have "text_ok (task_text t)" if "t \<in> set (loaded_items clock (reached ts))" for t
  proof -
    from that obtain i d where d: "(i, d) \<in> set (reached ts)" "loaded_item clock i d = Some t"
      using in_set_loaded_items by blast
    from d(1) have "(i, d) \<in> set (enumerate 0 ts)" using reached_subset [of ts] by blast
    then have "d \<in> set ts" by (auto simp: in_set_enumerate_eq)
    with ok d(2) show ?thesis by (auto simp: loaded_item_def split: if_splits)
  qed
  then show ?thesis by (simp add: texts_ok_def list_all_iff)
qed

lemma texts_ok_init:
  assumes "stored_texts_ok s"
  shows "texts_ok (taskList (init clock s)) \<and> stored_texts_ok (storage (init clock s))"
proof (cases s)
  case None
  then show ?thesis by (simp add: init_def loadTasks_def texts_ok_def stored_texts_ok_def)
next
  case (Some x)
  show ?thesis
  proof (cases "payload_corrupt x")
    case True
    then show ?thesis
      using Some by (simp add: init_corrupt load_failed_def texts_ok_def stored_texts_ok_def)
  next
    case False
    show ?thesis
    proof (cases x)
      case (NotJSON y)
      with False Some show ?thesis
        by (simp add: payload_corrupt_def init_def loadTasks_def texts_ok_def stored_texts_ok_def)
    next
      case (JSON j)
      with False obtain ts where j: "j = JArray ts"
        by (auto simp: payload_corrupt_def isArray_iff)
      let ?r = "loadTasks clock (fresh s)"
      have st: "storage (fresh s) = Some (JSON (JArray ts))" using Some JSON j by simp
      have "texts_ok (loaded_items clock (reached ts))"
        using assms Some JSON j by (simp add: texts_ok_loaded_items)
      then have l: "texts_ok (taskList ?r)"
        using loadTasks_array(1) [OF st, of clock] by (auto simp: texts_ok_def list_all_iff)
      have "storage ?r = None \<or> in_sync ?r \<or> storage ?r = s"
        using loadTasks_array(3) [OF st, of clock] by (auto split: if_splits)
      then have "stored_texts_ok (storage ?r)"
        using l assms stored_texts_ok_in_sync [of ?r] by (auto simp: stored_texts_ok_def)
      with l show ?thesis by (simp add: init_def)
    qed
  qed
qed

lemma texts_ok_handleAdd:
  assumes "texts_ok (taskList st)" "stored_texts_ok (storage st)"
  shows "texts_ok (taskList (handleAdd now st)) \<and> stored_texts_ok (storage (handleAdd now st))"
proof -
  let ?t = "\<lparr>task_id = nat_to_string now, task_text = trim (taskInput st), completed = False\<rparr>"
  have "texts_ok (taskList (added ?t st))"
    if "trim (taskInput st) \<noteq> []" "length (taskInput st) \<le> MAX_TASK_LENGTH"
    using that assms(1) text_ok_trim [of "taskInput st"]
    by (simp add: taskList_added texts_ok_def)
  then show ?thesis
    using assms
    by (auto simp: handleAdd_added storage_added stored_texts_ok_saved)
qed

lemma texts_ok_remove: "texts_ok l \<Longrightarrow> texts_ok (take i l @ drop (Suc i) l)"
  by (auto simp: texts_ok_def list_all_iff dest: in_set_takeD in_set_dropD)

lemma texts_ok_taskListClick:
  assumes "texts_ok (taskList st)" "stored_texts_ok (storage st)"
  shows "texts_ok (taskList (taskListClick e st)) \<and> stored_texts_ok (storage (taskListClick e st))"
proof -
  have d: "texts_ok (taskList (deleteTask i st))" for i
    using assms(1) by (simp add: texts_ok_remove)
  have t: "texts_ok (taskList (toggleComplete i st))" for i
    using assms(1) texts_ok_remove [OF assms(1), of i]
    by (auto simp: toggleComplete_def Let_def texts_ok_def list_all_iff)
  have ds: "stored_texts_ok (storage (deleteTask i st))" for i
    using stored_texts_ok_saved [OF d [of i]] by (simp add: deleteTask_def)
  have ts: "stored_texts_ok (storage (toggleComplete i st))" for i
    using stored_texts_ok_saved [OF t [of i]] assms(2)
    by (simp add: storage_toggleComplete)
  show ?thesis
    using assms d t ds ts by (simp add: taskListClick_def split: option.splits)
qed

lemma reachable_texts_ok:
  "reachable s0 st \<Longrightarrow> stored_texts_ok s0 \<Longrightarrow>
   texts_ok (taskList st) \<and> stored_texts_ok (storage st)"
proof (induction rule: reachable.induct)
  case (start clock)
  then show ?case by (simp add: texts_ok_init)
next
  case (typed st v)
  then show ?case by simp
next
  case (add st now)
  then show ?case by (simp add: texts_ok_handleAdd)
next
  case (click st e)
  then show ?case by (simp add: texts_ok_taskListClick)
next
  case (clear st)
  then have "texts_ok (filter (\<lambda>t. \<not> completed t) (taskList st))"
    by (simp add: texts_ok_def list_all_iff)
  then show ?case by (simp add: clearCompletedTasks_def stored_texts_ok_saved)
next
  case (reload st clock)
  then show ?case by (simp add: texts_ok_init)
qed

lemma session_texts_ok:
  "reachable None st \<Longrightarrow> t \<in> set (taskList st) \<Longrightarrow> text_ok (task_text t)"
  using reachable_texts_ok [of None st] by (simp add: stored_texts_ok_def texts_ok_def list_all_iff)

subsection \<open>Saving and loading again\<close>

lemma loaded_item_task_json:
  "trim (task_text t) \<noteq> [] \<Longrightarrow> task_id t \<noteq> [] \<Longrightarrow> loaded_item clock i (task_json t) = Some t"
  by (simp add: loaded_item_def) (simp add: task_json_def dataset_id_def)

lemma not_throws_task_json: "\<not> id_throws (task_json t)"
  by (simp add: id_throws_def) (simp add: task_json_def dataset_id_def)

lemma loaded_items_saved:
  assumes "\<forall>t\<in>set l. trim (task_text t) \<noteq> [] \<and> task_id t \<noteq> []"
  shows "loaded_items clock (enumerate n (map task_json l)) = l"
  using assms
  by (induction l arbitrary: n) (simp_all add: loaded_items_Cons loaded_item_task_json)

lemma reload_saved_list:
  assumes "\<forall>t\<in>set (taskList st). trim (task_text t) \<noteq> [] \<and> task_id t \<noteq> []"
  shows "taskList (init clock (storage (saveTasks st))) =
     filter (\<lambda>t. \<not> completed t) (taskList st) @ rev (filter completed (taskList st))"
proof -
  have "list_all (\<lambda>d. \<not> id_throws d) (map task_json (taskList st))"
    by (simp add: list_all_iff not_throws_task_json)
  from init_array_no_throw(1) [OF this, of clock] show ?thesis
    by (simp add: loaded_items_saved [OF assms])
qed

subsection \<open>Validation of the input\<close>

lemma handleAdd_validation:
  "(\<exists>m\<in>{EMPTY_TASK, WHITESPACE_ONLY, TASK_TOO_LONG}. alerts (handleAdd now st) = alerts st @ [m])
   \<longleftrightarrow> trim (taskInput st) = [] \<or> length (taskInput st) > MAX_TASK_LENGTH"
  by (auto simp: handleAdd_added)

lemma handleAdd_failure_keeps_list:
  "alerts (handleAdd now st) \<noteq> alerts st \<Longrightarrow>
   taskList (handleAdd now st) = taskList st \<and> storage (handleAdd now st) = storage st"
  by (auto simp: handleAdd_added split: if_splits)

section \<open>Claims\<close>

text \<open>
  C1. Save, then load on a freshly delivered page, is claimed to give back the same
  (id, text, completed) tuples in the same order, for every reachable list. The code
  does not: the loading loop walks the array backwards and \<open>addTask\<close> appends each
  completed task at the tail, so the completed tasks come back in reverse order. Here
  both tasks of \<open>st1\<close> have been completed, \<open>Buy milk\<close> first.
\<close>

theorem reload_reverses_completed:
  "reachable None st2
   \<and> taskList st2 =
     [\<lparr>task_id = ''1'', task_text = ''Buy milk'', completed = True\<rparr>,
      \<lparr>task_id = ''2'', task_text = ''Walk dog'', completed = True\<rparr>]
   \<and> taskList (init (\<lambda>i. 3) (storage (saveTasks st2))) =
     [\<lparr>task_id = ''2'', task_text = ''Walk dog'', completed = True\<rparr>,
      \<lparr>task_id = ''1'', task_text = ''Buy milk'', completed = True\<rparr>]
   \<and> taskList (init (\<lambda>i. 3) (storage (saveTasks st2))) \<noteq> taskList st2"
proof -
  have "taskList (init (\<lambda>i. 3) (storage (saveTasks st2))) =
     [\<lparr>task_id = ''2'', task_text = ''Walk dog'', completed = True\<rparr>,
      \<lparr>task_id = ''1'', task_text = ''Buy milk'', completed = True\<rparr>]"
    unfolding st2_def st1_def by code_simp
  with reachable_st2 taskList_st2 show ?thesis by simp
qed

text \<open>
  C2. Submitting is claimed to fail on length exactly when the trimmed text exceeds 200
  characters. The code compares the length of the untrimmed input with
  \<open>MAX_TASK_LENGTH\<close>: 199 letters followed by two spaces trim to 199 characters and are
  refused as too long.
\<close>

theorem padded_text_rejected:
  "length padded = 201 \<and> length (trim padded) = 199
   \<and> alerts (handleAdd 1 ((fresh None)\<lparr>taskInput := padded\<rparr>)) = [TASK_TOO_LONG]
   \<and> taskList (handleAdd 1 ((fresh None)\<lparr>taskInput := padded\<rparr>)) = []"
  unfolding padded_def by code_simp

text \<open>
  C3, as stated: \<open>clearCompletedTasks\<close> returns the number of tasks removed. The method
  has no return statement; with one completed task removed its value is \<open>undefined\<close>,
  not 1.
\<close>

theorem clear_completed_returns_nothing:
  "length (filter completed (taskList st3)) = 1
   \<and> taskList (snd (clearCompletedTasks st3)) =
       [\<lparr>task_id = ''2'', task_text = ''Walk dog'', completed = False\<rparr>]
   \<and> fst (clearCompletedTasks st3) = None
   \<and> fst (clearCompletedTasks st3) \<noteq> Some (JNumber ''1'')"
  by (simp add: taskList_st3 clearCompletedTasks_def)

text \<open>
  C3, amended. \<open>clearCompletedTasks\<close> removes exactly the completed tasks, all of them
  and no others, the remaining tasks keeping their order, and reports nothing; it returns
  no value. When no task is completed the list stays as it is.
\<close>

theorem clear_completed_removes_completed:
  "taskList (snd (clearCompletedTasks st)) = filter (\<lambda>t. \<not> completed t) (taskList st)
   \<and> length (taskList (snd (clearCompletedTasks st))) + length (filter completed (taskList st)) =
       length (taskList st)
   \<and> fst (clearCompletedTasks st) = None
   \<and> alerts (snd (clearCompletedTasks st)) = alerts st
   \<and> ((\<forall>t\<in>set (taskList st). \<not> completed t) \<longrightarrow>
        taskList (snd (clearCompletedTasks st)) = taskList st)"
proof -
  have "length (filter (\<lambda>t. \<not> completed t) (taskList st)) + length (filter completed (taskList st)) =
       length (taskList st)"
    using sum_length_filter_compl [of completed "taskList st"] by simp
  then show ?thesis by (simp add: clearCompletedTasks_def)
qed

theorem clear_completed_removes_completed_witness:
  "filter completed (taskList st1) = []
   \<and> taskList (snd (clearCompletedTasks st1)) = taskList st1
   \<and> fst (clearCompletedTasks st1) = None"
proof -
  have none: "\<forall>t\<in>set (taskList st1). \<not> completed t"
    by (simp add: taskList_st1)
  then have "filter completed (taskList st1) = []"
    by (simp add: filter_empty_conv)
  with none clear_completed_removes_completed [of st1] show ?thesis
    by blast
qed

text \<open>
  C4, as stated: toggling or deleting a task that is not in the list fails with a
  not-found error. The methods take the list element that the click landed in, not an
  id, and the code has no such error: for a click that is in no task item the handler
  returns, and nothing is alerted or logged.
\<close>

theorem click_outside_reports_nothing:
  "alerts (taskListClick \<lparr>closest = None, target = DeleteBtn\<rparr> st1) = []
   \<and> alerts (taskListClick \<lparr>closest = None, target = CompleteBtn\<rparr> st1) = []
   \<and> console (taskListClick \<lparr>closest = None, target = DeleteBtn\<rparr> st1) = []
   \<and> console (taskListClick \<lparr>closest = None, target = CompleteBtn\<rparr> st1) = []"
  unfolding st1_def by code_simp

text \<open>
  C4, amended. A click in the list never reports an error; a click that is in no task
  item leaves the whole state, list and slot included, unchanged.
\<close>

theorem click_never_reports_error:
  "alerts (taskListClick e st) = alerts st
   \<and> console (taskListClick e st) = console st
   \<and> (closest e = None \<longrightarrow> taskListClick e st = st)"
  by (simp add: taskListClick_def split: option.splits)

theorem click_never_reports_error_witness:
  "closest \<lparr>closest = None, target = DeleteBtn\<rparr> = None
   \<and> taskListClick \<lparr>closest = None, target = DeleteBtn\<rparr> st1 = st1
   \<and> alerts (taskListClick \<lparr>closest = Some 0, target = DeleteBtn\<rparr> st1) = alerts st1"
  using click_never_reports_error [of "\<lparr>closest = None, target = DeleteBtn\<rparr>" st1]
    click_never_reports_error [of "\<lparr>closest = Some 0, target = DeleteBtn\<rparr>" st1]
  by simp




text \<open>
  C6. Incomplete-first ordering is an invariant. Every reachable state has no completed
  task before an incomplete one, and each operation (submitting the input, \<open>addTask\<close>,
  \<open>toggleComplete\<close>, \<open>deleteTask\<close>, \<open>clearCompletedTasks\<close>, \<open>loadTasks\<close>) keeps the
  ordering. \<open>addTask\<close>, whenever the id can be stored (always so when none is given),
  puts an incomplete task at the head and a completed task at the tail; completing a task
  moves it to the tail; uncompleting a task moves it to the head.
\<close>

theorem incomplete_first_ordering:
  "(reachable s0 st \<longrightarrow> incomplete_first (taskList st))
   \<and> (incomplete_first (taskList st) \<longrightarrow>
        incomplete_first (taskList (handleAdd now st))
      \<and> (\<forall>st'. addTask now txt c idv st = Inr st' \<longrightarrow> incomplete_first (taskList st'))
      \<and> incomplete_first (taskList (toggleComplete i st))
      \<and> incomplete_first (taskList (deleteTask i st))
      \<and> incomplete_first (taskList (snd (clearCompletedTasks st)))
      \<and> incomplete_first (taskList (loadTasks clock st)))
   \<and> (dataset_id idv now = Some s \<longrightarrow>
        (\<exists>st'. addTask now txt False idv st = Inr st' \<and>
           taskList st' = \<lparr>task_id = s, task_text = txt, completed = False\<rparr> # taskList st)
      \<and> (\<exists>st'. addTask now txt True idv st = Inr st' \<and>
           taskList st' = taskList st @ [\<lparr>task_id = s, task_text = txt, completed = True\<rparr>]))
   \<and> (\<exists>st'. addTask now txt False None st = Inr st' \<and>
         taskList st' =
           \<lparr>task_id = nat_to_string now, task_text = txt, completed = False\<rparr> # taskList st)
   \<and> (i < length (taskList st) \<and> \<not> completed (taskList st ! i) \<longrightarrow>
        taskList (toggleComplete i st) =
          take i (taskList st) @ drop (Suc i) (taskList st) @
          [(taskList st ! i)\<lparr>completed := True\<rparr>])
   \<and> (i < length (taskList st) \<and> completed (taskList st ! i) \<longrightarrow>
        taskList (toggleComplete i st) =
          (taskList st ! i)\<lparr>completed := False\<rparr> #
          take i (taskList st) @ drop (Suc i) (taskList st))"
proof -
  have inv: "incomplete_first (taskList st) \<longrightarrow>
        incomplete_first (taskList (handleAdd now st))
      \<and> (\<forall>st'. addTask now txt c idv st = Inr st' \<longrightarrow> incomplete_first (taskList st'))
      \<and> incomplete_first (taskList (toggleComplete i st))
      \<and> incomplete_first (taskList (deleteTask i st))
      \<and> incomplete_first (taskList (snd (clearCompletedTasks st)))
      \<and> incomplete_first (taskList (loadTasks clock st))"
    using incomplete_first_addTask [of st now "txt" c idv]
    by (simp add: incomplete_first_handleAdd
        incomplete_first_toggleComplete incomplete_first_remove incomplete_first_filter
        incomplete_first_loadTasks)
  have reach: "reachable s0 st \<longrightarrow> incomplete_first (taskList st)"
    by (simp add: reachable_incomplete_first)
  have place: "dataset_id idv now = Some s \<longrightarrow>
        (\<exists>st'. addTask now txt False idv st = Inr st' \<and>
           taskList st' = \<lparr>task_id = s, task_text = txt, completed = False\<rparr> # taskList st)
      \<and> (\<exists>st'. addTask now txt True idv st = Inr st' \<and>
           taskList st' = taskList st @ [\<lparr>task_id = s, task_text = txt, completed = True\<rparr>])"
    by (simp add: addTask_added taskList_added)
  have fresh_id: "\<exists>st'. addTask now txt False None st = Inr st' \<and>
         taskList st' =
           \<lparr>task_id = nat_to_string now, task_text = txt, completed = False\<rparr> # taskList st"
    by (simp add: addTask_no_id taskList_added)
  have toggle: "(i < length (taskList st) \<and> \<not> completed (taskList st ! i) \<longrightarrow>
        taskList (toggleComplete i st) =
          take i (taskList st) @ drop (Suc i) (taskList st) @
          [(taskList st ! i)\<lparr>completed := True\<rparr>])
   \<and> (i < length (taskList st) \<and> completed (taskList st ! i) \<longrightarrow>
        taskList (toggleComplete i st) =
          (taskList st ! i)\<lparr>completed := False\<rparr> #
          take i (taskList st) @ drop (Suc i) (taskList st))"
    by (simp add: taskList_toggleComplete)
  from reach inv place fresh_id toggle show ?thesis by blast
qed

theorem incomplete_first_ordering_witness:
  "reachable None st1
   \<and> incomplete_first (taskList st1)
   \<and> dataset_id (Some (JString ''7'')) 3 = Some ''7''
   \<and> (\<exists>st'. addTask 3 ''Feed cat'' True (Some (JString ''7'')) st1 = Inr st' \<and>
         taskList st' = taskList st1 @
           [\<lparr>task_id = ''7'', task_text = ''Feed cat'', completed = True\<rparr>] \<and>
         incomplete_first (taskList st'))
   \<and> 0 < length (taskList st1) \<and> \<not> completed (taskList st1 ! 0)
   \<and> taskList (toggleComplete 0 st1) =
      [\<lparr>task_id = ''1'', task_text = ''Buy milk'', completed = False\<rparr>,
       \<lparr>task_id = ''2'', task_text = ''Walk dog'', completed = True\<rparr>]
   \<and> incomplete_first (taskList (toggleComplete 0 st1))
   \<and> 1 < length (taskList (toggleComplete 0 st1))
   \<and> completed (taskList (toggleComplete 0 st1) ! 1)
   \<and> taskList (toggleComplete 1 (toggleComplete 0 st1)) =
      [\<lparr>task_id = ''2'', task_text = ''Walk dog'', completed = False\<rparr>,
       \<lparr>task_id = ''1'', task_text = ''Buy milk'', completed = False\<rparr>]"
proof -
  note a = incomplete_first_ordering
    [of None st1 3 "''Feed cat''" True "Some (JString ''7'')" 0 "\<lambda>i. 0" "''7''"]
  have d: "dataset_id (Some (JString ''7'')) 3 = Some ''7''" by (simp add: dataset_id_def)
  from a reachable_st1 have i1: "incomplete_first (taskList st1)" by blast
  from a d obtain st' where st': "addTask 3 ''Feed cat'' True (Some (JString ''7'')) st1 = Inr st'"
    "taskList st' = taskList st1 @ [\<lparr>task_id = ''7'', task_text = ''Feed cat'', completed = True\<rparr>]"
    by blast
  from a i1 st'(1) have i3: "incomplete_first (taskList st')" by blast
  from a taskList_st1 have t1: "taskList (toggleComplete 0 st1) =
      [\<lparr>task_id = ''1'', task_text = ''Buy milk'', completed = False\<rparr>,
       \<lparr>task_id = ''2'', task_text = ''Walk dog'', completed = True\<rparr>]" by simp
  from a i1 have i2: "incomplete_first (taskList (toggleComplete 0 st1))" by blast
  note b = incomplete_first_ordering
    [of None "toggleComplete 0 st1" 1 "''x''" False None 1 "\<lambda>i. 0" "''1''"]
  from b t1 have t2: "taskList (toggleComplete 1 (toggleComplete 0 st1)) =
      [\<lparr>task_id = ''2'', task_text = ''Walk dog'', completed = False\<rparr>,
       \<lparr>task_id = ''1'', task_text = ''Buy milk'', completed = False\<rparr>]" by simp
  from st' i3 have ex: "\<exists>st'. addTask 3 ''Feed cat'' True (Some (JString ''7'')) st1 = Inr st' \<and>
         taskList st' = taskList st1 @
           [\<lparr>task_id = ''7'', task_text = ''Feed cat'', completed = True\<rparr>] \<and>
         incomplete_first (taskList st')" by blast
  show ?thesis using reachable_st1 i1 d ex i2 taskList_st1 t1 t2 by simp
qed

text \<open>
  C7, as stated: submitting a text that is case-insensitively equal to the text of an
  incomplete task always fails with the task-exists alert. The duplicate check comes
  after validation and compares the trimmed input, and loading does not trim or bound
  the stored texts. Over a stored task "a " the input "a " is accepted as the new task
  "a"; over a stored task of 201 letters the same 201 letters are refused as too long.
\<close>

theorem stored_duplicate_not_rejected:
  "map task_text (taskList st_untrimmed) = [''a '']
   \<and> map completed (taskList st_untrimmed) = [False]
   \<and> taskInput st_untrimmed = ''a ''
   \<and> alerts (handleAdd 6 st_untrimmed) = []
   \<and> map task_text (taskList (handleAdd 6 st_untrimmed)) = [''a'', ''a '']
   \<and> map task_text (taskList st_long) = [taskInput st_long]
   \<and> map completed (taskList st_long) = [False]
   \<and> alerts (handleAdd 6 st_long) = [TASK_TOO_LONG]"
  unfolding st_untrimmed_def st_long_def by code_simp

text \<open>
  C7, amended. Submitting a text that passes validation (not empty after trimming, at most
  200 characters before trimming) and whose trimmed form is case-insensitively equal to
  the text of an incomplete task of the list fails with the task-exists alert and changes
  nothing else. Submitting such a text when no incomplete task has that text, in
  particular when only completed tasks have it, succeeds: the trimmed text becomes a new
  incomplete task at the head of the list.
\<close>

theorem duplicate_of_incomplete_rejected:
  assumes "trim (taskInput st) \<noteq> []" and "length (taskInput st) \<le> MAX_TASK_LENGTH"
  shows "((\<exists>t\<in>set (taskList st). \<not> completed t \<and>
             toLowerCase (task_text t) = toLowerCase (trim (taskInput st))) \<longrightarrow>
          handleAdd now st = st\<lparr>alerts := alerts st @ [TASK_EXISTS]\<rparr>)
       \<and> (\<not> (\<exists>t\<in>set (taskList st). \<not> completed t \<and>
             toLowerCase (task_text t) = toLowerCase (trim (taskInput st))) \<longrightarrow>
          alerts (handleAdd now st) = alerts st \<and>
          taskList (handleAdd now st) =
            \<lparr>task_id = nat_to_string now, task_text = trim (taskInput st), completed = False\<rparr> #
            taskList st)"
proof -
  have ne: "taskInput st \<noteq> []" using assms(1) by auto
  have ex: "list_ex (\<lambda>t. toLowerCase (task_text t) = toLowerCase (trim (taskInput st)) \<and>
                 \<not> completed t) (taskList st) \<longleftrightarrow>
      (\<exists>t\<in>set (taskList st). \<not> completed t \<and>
             toLowerCase (task_text t) = toLowerCase (trim (taskInput st)))"
    by (auto simp: list_ex_iff)
  show ?thesis
    using assms ne ex by (simp add: handleAdd_added taskList_added)
qed

theorem duplicate_of_incomplete_rejected_witness:
  "trim (taskInput (st3\<lparr>taskInput := '' WALK Dog''\<rparr>)) \<noteq> []
   \<and> length (taskInput (st3\<lparr>taskInput := '' WALK Dog''\<rparr>)) \<le> MAX_TASK_LENGTH
   \<and> (\<exists>t\<in>set (taskList st3). \<not> completed t \<and>
         toLowerCase (task_text t) = toLowerCase (trim '' WALK Dog''))
   \<and> handleAdd 3 (st3\<lparr>taskInput := '' WALK Dog''\<rparr>) =
       st3\<lparr>taskInput := '' WALK Dog'', alerts := alerts st3 @ [TASK_EXISTS]\<rparr>
   \<and> trim (taskInput (st3\<lparr>taskInput := ''Buy milk''\<rparr>)) \<noteq> []
   \<and> length (taskInput (st3\<lparr>taskInput := ''Buy milk''\<rparr>)) \<le> MAX_TASK_LENGTH
   \<and> (\<exists>t\<in>set (taskList st3). completed t \<and>
         toLowerCase (task_text t) = toLowerCase (trim ''Buy milk''))
   \<and> \<not> (\<exists>t\<in>set (taskList st3). \<not> completed t \<and>
         toLowerCase (task_text t) = toLowerCase (trim ''Buy milk''))
   \<and> taskList (handleAdd 3 (st3\<lparr>taskInput := ''Buy milk''\<rparr>)) =
       [\<lparr>task_id = nat_to_string 3, task_text = ''Buy milk'', completed = False\<rparr>,
        \<lparr>task_id = ''2'', task_text = ''Walk dog'', completed = False\<rparr>,
        \<lparr>task_id = ''1'', task_text = ''Buy milk'', completed = True\<rparr>]"
proof -
  have v1: "trim (taskInput (st3\<lparr>taskInput := '' WALK Dog''\<rparr>)) \<noteq> []"
    and n1: "length (taskInput (st3\<lparr>taskInput := '' WALK Dog''\<rparr>)) \<le> MAX_TASK_LENGTH"
    and v2: "trim (taskInput (st3\<lparr>taskInput := ''Buy milk''\<rparr>)) \<noteq> []"
    and n2: "length (taskInput (st3\<lparr>taskInput := ''Buy milk''\<rparr>)) \<le> MAX_TASK_LENGTH"
    by (simp_all add: trim_def is_space_def MAX_TASK_LENGTH_def)
  have t1: "trim '' WALK Dog'' = ''WALK Dog''" and t2: "trim ''Buy milk'' = ''Buy milk''"
    by code_simp+
  have h1: "\<exists>t\<in>set (taskList st3). \<not> completed t \<and>
      toLowerCase (task_text t) = toLowerCase (trim '' WALK Dog'')"
    unfolding taskList_st3 by code_simp
  have h2: "\<exists>t\<in>set (taskList st3). completed t \<and>
      toLowerCase (task_text t) = toLowerCase (trim ''Buy milk'')"
    unfolding taskList_st3 by code_simp
  have h3: "\<not> (\<exists>t\<in>set (taskList st3). \<not> completed t \<and>
         toLowerCase (task_text t) = toLowerCase (trim ''Buy milk''))"
    unfolding taskList_st3 by code_simp
  note a = duplicate_of_incomplete_rejected [OF v1 n1, of 3]
  note b = duplicate_of_incomplete_rejected [OF v2 n2, of 3]
  from a h1 have c1: "handleAdd 3 (st3\<lparr>taskInput := '' WALK Dog''\<rparr>) =
       st3\<lparr>taskInput := '' WALK Dog'', alerts := alerts st3 @ [TASK_EXISTS]\<rparr>"
    by simp
  from b h3 have c2: "taskList (handleAdd 3 (st3\<lparr>taskInput := ''Buy milk''\<rparr>)) =
       [\<lparr>task_id = nat_to_string 3, task_text = ''Buy milk'', completed = False\<rparr>,
        \<lparr>task_id = ''2'', task_text = ''Walk dog'', completed = False\<rparr>,
        \<lparr>task_id = ''1'', task_text = ''Buy milk'', completed = True\<rparr>]"
    by (simp add: taskList_st3 t2)
  from v1 n1 v2 n2 h1 h2 h3 c1 c2 show ?thesis by blast
qed

text \<open>
  C8. If the slot holds valid JSON that is not an array (a bare object, a number, ...),
  loading leaves the list empty and clears the slot: on the page as delivered the list is
  empty afterwards, the slot is removed, and the one alert is the data-corrupt message.
  Loading into any state leaves its list as it was.
\<close>

theorem load_non_array_clears:
  assumes "\<not> isArray j"
  shows "taskList (init clock (Some (JSON j))) = []
       \<and> storage (init clock (Some (JSON j))) = None
       \<and> alerts (init clock (Some (JSON j))) = [DATA_CORRUPT NotAnArray]
       \<and> taskList (loadTasks clock (st\<lparr>storage := Some (JSON j)\<rparr>)) = taskList st
       \<and> storage (loadTasks clock (st\<lparr>storage := Some (JSON j)\<rparr>)) = None"
proof -
  have "init clock (Some (JSON j)) = load_failed NotAnArray (fresh (Some (JSON j)))"
    using assms by (cases j) (simp_all add: init_def loadTasks_def)
  moreover have "loadTasks clock (st\<lparr>storage := Some (JSON j)\<rparr>) =
      load_failed NotAnArray (st\<lparr>storage := Some (JSON j)\<rparr>)"
    by (rule loadTasks_not_array [OF assms])
  ultimately show ?thesis
    by (simp add: load_failed_def)
qed

theorem load_non_array_clears_witness:
  "\<not> isArray (JObject [(''a'', JNumber ''1'')])
   \<and> taskList (init (\<lambda>i. 5) (Some (JSON (JObject [(''a'', JNumber ''1'')])))) = []
   \<and> storage (init (\<lambda>i. 5) (Some (JSON (JObject [(''a'', JNumber ''1'')])))) = None"
  using load_non_array_clears [of "JObject [(''a'', JNumber ''1'')]" "\<lambda>i. 5" "fresh None"]
  by simp

text \<open>
  C9, as stated: when one element of the stored array has no string text, loading skips
  only that element and loads all the others rather than aborting. Not when the id of
  another element cannot be stored as a string: here the third element passes
  \<open>isValidTaskData\<close>, its id is an object with a \<open>toString\<close> property, \<open>addTask\<close> throws
  on it, and the load ends with the data-corrupt alert, the slot removed and nothing
  loaded, the well-formed first element included.
\<close>

theorem unconvertible_id_aborts_load:
  "isValidTaskData
     (JObject [(''id'', JString ''1''), (''text'', JString ''Buy milk''), (''completed'', JBool False)])
   \<and> isValidTaskData
     (JObject [(''id'', JObject [(''toString'', JNumber ''1'')]), (''text'', JString ''Walk dog''),
               (''completed'', JBool True)])
   \<and> taskList (init (\<lambda>i. 5) (Some (JSON bad_id_payload))) = []
   \<and> alerts (init (\<lambda>i. 5) (Some (JSON bad_id_payload))) = [DATA_CORRUPT TypeError]
   \<and> storage (init (\<lambda>i. 5) (Some (JSON bad_id_payload))) = None"
  unfolding bad_id_payload_def by code_simp

text \<open>
  C9, amended. When the stored array has elements without a string text, without a boolean
  completed, or with text that trims to empty, and the id of every element that passes
  \<open>isValidTaskData\<close> can be stored as a string, loading skips exactly the failing
  elements, each with a warning, and loads all the others: the list holds the items of
  the passing elements (the incomplete ones in array order, then the completed ones in
  reverse array order), nothing is alerted, the slot is not removed, and the console has
  one warning per skipped element and then the summary.
\<close>

theorem load_skips_invalid_elements:
  assumes "list_all (\<lambda>d. \<not> id_throws d) ts"
  shows "taskList (init clock (Some (JSON (JArray ts)))) =
     filter (\<lambda>t. \<not> completed t) (loaded_items clock (enumerate 0 ts)) @
     rev (filter completed (loaded_items clock (enumerate 0 ts)))
   \<and> length (taskList (init clock (Some (JSON (JArray ts))))) = length (filter isValidTaskData ts)
   \<and> alerts (init clock (Some (JSON (JArray ts)))) = []
   \<and> storage (init clock (Some (JSON (JArray ts)))) \<noteq> None
   \<and> console (init clock (Some (JSON (JArray ts)))) =
       map SkippedTask (rev (filter (\<lambda>d. \<not> isValidTaskData d) ts)) @
       (if \<exists>d\<in>set ts. \<not> isValidTaskData d
        then [LoadSummary (length (filter isValidTaskData ts))
                (length (filter (\<lambda>d. \<not> isValidTaskData d) ts))]
        else [])"
proof -
  have no: "\<forall>d\<in>set ts. \<not> id_throws d" using assms by (simp add: list_all_iff)
  have "length (filter (\<lambda>t. \<not> completed t) (loaded_items clock (enumerate 0 ts))) +
        length (filter completed (loaded_items clock (enumerate 0 ts))) =
        length (loaded_items clock (enumerate 0 ts))"
    using sum_length_filter_compl [of completed "loaded_items clock (enumerate 0 ts)"] by simp
  then have len: "length (filter (\<lambda>t. \<not> completed t) (loaded_items clock (enumerate 0 ts)) @
     rev (filter completed (loaded_items clock (enumerate 0 ts)))) = length (filter isValidTaskData ts)"
    using length_loaded_items_no_throw [OF no, of clock 0] by simp
  show ?thesis
    using init_array_no_throw [OF assms, of clock] len by simp
qed

theorem load_skips_invalid_elements_witness:
  "list_all (\<lambda>d. \<not> id_throws d)
     [JObject [(''id'', JString ''1''), (''text'', JString ''Buy milk''), (''completed'', JBool False)],
      JObject [(''id'', JString ''2''), (''completed'', JBool False)],
      JObject [(''id'', JString ''3''), (''text'', JString ''Walk dog''), (''completed'', JBool True)]]
   \<and> taskList (init (\<lambda>i. 5) (Some (JSON mixed_payload))) =
     [\<lparr>task_id = ''1'', task_text = ''Buy milk'', completed = False\<rparr>,
      \<lparr>task_id = ''3'', task_text = ''Walk dog'', completed = True\<rparr>]
   \<and> console (init (\<lambda>i. 5) (Some (JSON mixed_payload))) =
     [SkippedTask (JObject [(''id'', JString ''2''), (''completed'', JBool False)]),
      LoadSummary 2 1]"
proof -
  let ?ts = "[JObject [(''id'', JString ''1''), (''text'', JString ''Buy milk''), (''completed'', JBool False)],
      JObject [(''id'', JString ''2''), (''completed'', JBool False)],
      JObject [(''id'', JString ''3''), (''text'', JString ''Walk dog''), (''completed'', JBool True)]]"
  have h: "list_all (\<lambda>d. \<not> id_throws d) ?ts" by code_simp
  have 1: "filter (\<lambda>t. \<not> completed t) (loaded_items (\<lambda>i. 5) (enumerate 0 ?ts)) @
     rev (filter completed (loaded_items (\<lambda>i. 5) (enumerate 0 ?ts))) =
     [\<lparr>task_id = ''1'', task_text = ''Buy milk'', completed = False\<rparr>,
      \<lparr>task_id = ''3'', task_text = ''Walk dog'', completed = True\<rparr>]"
    by code_simp
  have 2: "map SkippedTask (rev (filter (\<lambda>d. \<not> isValidTaskData d) ?ts)) @
       (if \<exists>d\<in>set ?ts. \<not> isValidTaskData d
        then [LoadSummary (length (filter isValidTaskData ?ts))
                (length (filter (\<lambda>d. \<not> isValidTaskData d) ?ts))]
        else []) =
     [SkippedTask (JObject [(''id'', JString ''2''), (''completed'', JBool False)]),
      LoadSummary 2 1]"
    by code_simp
  show ?thesis
    using load_skips_invalid_elements [OF h, of "\<lambda>i. 5"] h 1 2
    by (simp add: mixed_payload_def)
qed

text \<open>
  C10. Task ids are claimed to be unique in the list. A generated id is the clock
  reading \<open>Date.now()\<close>; two tasks submitted under the same reading, and likewise two
  stored elements without an id loaded under the same reading, get the same id.
\<close>

theorem same_clock_reading_same_id:
  "map task_id (taskList (handleAdd 1766822400000
       ((handleAdd 1766822400000 ((init (\<lambda>i. 0) None)\<lparr>taskInput := ''Buy milk''\<rparr>))
          \<lparr>taskInput := ''Walk dog''\<rparr>))) =
     [nat_to_string 1766822400000, nat_to_string 1766822400000]
   \<and> map task_id (taskList (init (\<lambda>i. 1766822400000) (Some (JSON legacy_payload)))) =
     [nat_to_string 1766822400000, nat_to_string 1766822400000]
   \<and> \<not> distinct (map task_id (taskList (handleAdd 1766822400000
       ((handleAdd 1766822400000 ((init (\<lambda>i. 0) None)\<lparr>taskInput := ''Buy milk''\<rparr>))
          \<lparr>taskInput := ''Walk dog''\<rparr>))))
   \<and> \<not> distinct (map task_id
       (taskList (init (\<lambda>i. 1766822400000) (Some (JSON legacy_payload)))))"
  by (simp add: init_def fresh_def loadTasks_def handleAdd_added Let_def trim_def is_space_def
      MAX_TASK_LENGTH_def toLowerCase_def lower_char_def addTask_added taskList_added
      legacy_payload_def isValidTaskData_def numeral_2_eq_2)

end
